theory Spec2Isabelle
  imports Main
begin

section \<open>Data model of the address import page\<close>

text \<open>
  The page \<^verbatim>\<open>AddressManagement.tsx\<close> reads a CSV file of barangays with their full
  ancestry, validates it (\<^verbatim>\<open>parseCSV\<close>) and replaces the four address tables of the
  store with the hierarchy it encodes (\<^verbatim>\<open>uploadData\<close>).  A row is the type
  \<^verbatim>\<open>AddressRow\<close> of the source: eight string fields (the parser runs with
  \<^verbatim>\<open>dynamicTyping: false\<close>, so every value is a string).  A line of the file with
  fewer values than the header, which the parser hands over as a row without its last
  keys, is not a value of this type; a file with such a line is never valid, and the
  counts of the report are stated for valid files only.
\<close>

record AddressRow =
  regionCode :: string
  regionName :: string
  provinceCode :: string
  provinceName :: string
  lguCode :: string
  lguName :: string
  barangayCode :: string
  barangayName :: string

text \<open>The states of \<^verbatim>\<open>uploadStatus\<close>.\<close>

datatype status = Idle | Validating | Uploading | Success | Error

record stats =
  regions :: nat
  provinces :: nat
  lgus :: nat
  barangays :: nat

record validation =
  valid :: bool
  errors :: "string list"
  stats :: stats

text \<open>The parser's own error records are only stored, never inspected.\<close>

datatype ParseError = ParseError string

text \<open>
  The React state of the component that the two operations read and write:
  \<^verbatim>\<open>parseResults\<close> (rows and parser errors), \<^verbatim>\<open>uploadStatus\<close> and
  \<^verbatim>\<open>validation\<close>.
\<close>

record page_state =
  parseRows :: "AddressRow list"
  parseErrors :: "ParseError list"
  uploadStatus :: status
  validation :: validation

definition no_stats :: stats where
  "no_stats = \<lparr>regions = 0, provinces = 0, lgus = 0, barangays = 0\<rparr>"

definition initial_state :: page_state where
  "initial_state =
     \<lparr>parseRows = [], parseErrors = [], uploadStatus = Idle,
      validation = \<lparr>valid = False, errors = [], stats = no_stats\<rparr>\<rparr>"

section \<open>The entities sent to the store\<close>

text \<open>
  The object literals built by \<^verbatim>\<open>uploadData\<close>: a region is \<^verbatim>\<open>{code, name}\<close>, a
  province adds \<^verbatim>\<open>region_code\<close>, an LGU adds \<^verbatim>\<open>province_code\<close>, and a barangay is
  \<^verbatim>\<open>{code, name, province_code, lgu_code}\<close>.
\<close>

record Region =
  code :: string
  name :: string

record Province = Region +
  region_code :: string

record Lgu = Region +
  province_code :: string

record Barangay = Lgu +
  lgu_code :: string

text \<open>
  A call to the store: \<^verbatim>\<open>supabase.from(t).delete().neq('id', 0)\<close> or
  \<^verbatim>\<open>supabase.from(t).insert(records)\<close> for one of the four tables.
\<close>

datatype call =
    Delete string
  | InsertRegions "Region list"
  | InsertProvinces "Province list"
  | InsertLgus "Lgu list"
  | InsertBarangays "Barangay list"

text \<open>
  What awaiting a call gives: the promise resolves to a result whose \<^verbatim>\<open>error\<close> is
  either absent or carries a message, or the promise rejects with a thrown value (an
  \<^verbatim>\<open>Error\<close> with a message, or anything else).
\<close>

datatype thrown = ErrorObject string | OtherValue

datatype response = Resolved "string option" | Rejected thrown

text \<open>
  The store is any deterministic collaborator: its answer may depend on every call it
  received before and on the call itself.
\<close>

type_synonym store = "call list \<Rightarrow> call \<Rightarrow> response"

text \<open>What the page does to the outside, in the order it does it.\<close>

datatype toast_kind = ToastError | ToastInfo | ToastSuccess

datatype event =
    SetUploadStatus status
  | Toast toast_kind string
  | ConsoleError thrown
  | StoreCall call

section \<open>Strings\<close>

text \<open>\<^verbatim>\<open>Array.prototype.join\<close> on an array of strings.\<close>

fun join :: "string \<Rightarrow> string list \<Rightarrow> string" where
  "join sep [] = []"
| "join sep [x] = x"
| "join sep (x # y # ys) = x @ sep @ join sep (y # ys)"

text \<open>
  A non-negative integer inside a template literal: its decimal digits.  (Row numbers
  and batch numbers are array indices plus a small constant, far below the size at which
  JavaScript switches to exponent notation.)
\<close>

definition digit_char :: "nat \<Rightarrow> char" where
  "digit_char d = ''0123456789'' ! d"

function string_of_nat :: "nat \<Rightarrow> string" where
  "string_of_nat n =
     (if n < 10 then [digit_char n]
      else string_of_nat (n div 10) @ [digit_char (n mod 10)])"
  by pat_completeness auto
termination
  by (relation "measure (\<lambda>n. n)") auto

declare string_of_nat.simps [simp del]

section \<open>Validation: the \<^verbatim>\<open>complete\<close> callback of \<^verbatim>\<open>parseCSV\<close>\<close>

definition requiredColumns :: "string list" where
  "requiredColumns =
     [''regionCode'', ''regionName'', ''provinceCode'', ''provinceName'',
      ''lguCode'', ''lguName'', ''barangayCode'', ''barangayName'']"

text \<open>
  \<^verbatim>\<open>row[col as keyof AddressRow]\<close>: the value of the named field, undefined
  (\<open>None\<close>) for a name that is not a field of the row.
\<close>

definition row_get :: "string \<Rightarrow> AddressRow \<Rightarrow> string option" where
  "row_get col row =
     (if col = ''regionCode'' then Some (regionCode row)
      else if col = ''regionName'' then Some (regionName row)
      else if col = ''provinceCode'' then Some (provinceCode row)
      else if col = ''provinceName'' then Some (provinceName row)
      else if col = ''lguCode'' then Some (lguCode row)
      else if col = ''lguName'' then Some (lguName row)
      else if col = ''barangayCode'' then Some (barangayCode row)
      else if col = ''barangayName'' then Some (barangayName row)
      else None)"

text \<open>\<^verbatim>\<open>!v\<close> for a value that is a string or undefined.\<close>

definition falsy :: "string option \<Rightarrow> bool" where
  "falsy v = (case v of None \<Rightarrow> True | Some s \<Rightarrow> s = [])"

definition missing_value_message :: "nat \<Rightarrow> string \<Rightarrow> string" where
  "missing_value_message rowNumber col =
     ''Row '' @ string_of_nat rowNumber @ '': Missing value for '' @ col"

text \<open>
  The body of \<^verbatim>\<open>data.forEach((row, index) => ...)\<close>: the inner
  \<^verbatim>\<open>requiredColumns.forEach\<close> pushes onto the array \<^verbatim>\<open>validationErrors\<close>.
\<close>

definition check_row :: "string list \<Rightarrow> nat \<times> AddressRow \<Rightarrow> string list" where
  "check_row validationErrors ir =
     (let index = fst ir; row = snd ir; rowNumber = index + 2
      in foldl (\<lambda>errs col.
                  if falsy (row_get col row)
                  then errs @ [missing_value_message rowNumber col]
                  else errs)
               validationErrors requiredColumns)"

definition validate_rows :: "AddressRow list \<Rightarrow> string list" where
  "validate_rows data = foldl check_row [] (enumerate 0 data)"

text \<open>
  \<^verbatim>\<open>new Set(xs)\<close> keeps the values in insertion order and ignores a value it
  already holds; \<^verbatim>\<open>.size\<close> is the number of values kept.
\<close>

definition set_add :: "'a list \<Rightarrow> 'a \<Rightarrow> 'a list" where
  "set_add s x = (if x \<in> set s then s else s @ [x])"

definition new_Set :: "'a list \<Rightarrow> 'a list" where
  "new_Set xs = foldl set_add [] xs"

definition count_stats :: "AddressRow list \<Rightarrow> stats" where
  "count_stats data =
     (let uniqueRegions = new_Set (map regionCode data);
          uniqueProvinces = new_Set (map provinceCode data);
          uniqueLgus = new_Set (map lguCode data);
          uniqueBarangays = new_Set (map barangayCode data)
      in \<lparr>regions = length uniqueRegions,
          provinces = length uniqueProvinces,
          lgus = length uniqueLgus,
          barangays = length uniqueBarangays\<rparr>)"

text \<open>
  The \<^verbatim>\<open>complete\<close> callback, on the parser's \<^verbatim>\<open>data\<close>, \<^verbatim>\<open>errors\<close> and
  \<^verbatim>\<open>meta.fields\<close> (which may be undefined: \<^verbatim>\<open>meta.fields || []\<close>).
\<close>

definition parsedColumns :: "string list option \<Rightarrow> string list" where
  "parsedColumns metaFields = (case metaFields of None \<Rightarrow> [] | Some fs \<Rightarrow> fs)"

definition complete :: "AddressRow list \<Rightarrow> ParseError list \<Rightarrow> string list option \<Rightarrow>
    page_state \<Rightarrow> page_state \<times> event list" where
  "complete data perrors metaFields s =
     (let missingColumns =
            filter (\<lambda>col. col \<notin> set (parsedColumns metaFields)) requiredColumns
      in if length missingColumns > 0
         then (s\<lparr>uploadStatus := Error,
                  validation :=
                    \<lparr>valid = False,
                     errors = [''Missing required columns: '' @ join '', '' missingColumns],
                     stats = no_stats\<rparr>\<rparr>,
               [SetUploadStatus Error])
         else
           (let validationErrors = validate_rows data;
                st = count_stats data;
                final = (if length validationErrors = 0 then Idle else Error)
            in (s\<lparr>parseRows := data, parseErrors := perrors,
                    validation :=
                      \<lparr>valid = (length validationErrors = 0),
                       errors = validationErrors,
                       stats = st\<rparr>,
                    uploadStatus := final\<rparr>,
                [SetUploadStatus final])))"

text \<open>
  What the parsing library hands back: the \<^verbatim>\<open>complete\<close> callback with its results,
  or the \<^verbatim>\<open>error\<close> callback with a message.
\<close>

datatype parse_outcome =
    Complete "AddressRow list" "ParseError list" "string list option"
  | Failed string

definition parseCSV :: "parse_outcome \<Rightarrow> page_state \<Rightarrow> page_state \<times> event list" where
  "parseCSV outcome s =
     (let s1 = s\<lparr>uploadStatus := Validating\<rparr>
      in case outcome of
           Complete data perrors metaFields \<Rightarrow>
             (let (s2, evs) = complete data perrors metaFields s1
              in (s2, SetUploadStatus Validating # evs))
         | Failed message \<Rightarrow>
             (s1\<lparr>uploadStatus := Error\<rparr>,
              [SetUploadStatus Validating,
               Toast ToastError (''Error parsing CSV file: '' @ message),
               SetUploadStatus Error]))"

section \<open>Extraction of the four collections in \<^verbatim>\<open>uploadData\<close>\<close>

text \<open>
  \<^verbatim>\<open>new Map(entries)\<close> calls \<^verbatim>\<open>set(key, value)\<close> for each entry in turn.  A map
  keeps its keys in the order of their first insertion; setting a key it already holds
  replaces the value and leaves the key where it is.  \<^verbatim>\<open>Array.from(map)\<close> lists the
  entries in that order.
\<close>

fun map_set :: "('k \<times> 'v) list \<Rightarrow> 'k \<times> 'v \<Rightarrow> ('k \<times> 'v) list" where
  "map_set [] kv = [kv]"
| "map_set (p # ps) kv =
     (if fst p = fst kv then (fst p, snd kv) # ps else p # map_set ps kv)"

definition new_Map :: "('k \<times> 'v) list \<Rightarrow> ('k \<times> 'v) list" where
  "new_Map entries = foldl map_set [] entries"

definition region_entry :: "AddressRow \<Rightarrow> string \<times> Region" where
  "region_entry row = (regionCode row, \<lparr>code = regionCode row, name = regionName row\<rparr>)"

definition province_entry :: "AddressRow \<Rightarrow> string \<times> Province" where
  "province_entry row =
     (provinceCode row,
      \<lparr>code = provinceCode row, name = provinceName row, region_code = regionCode row\<rparr>)"

definition lgu_entry :: "AddressRow \<Rightarrow> string \<times> Lgu" where
  "lgu_entry row =
     (lguCode row,
      \<lparr>code = lguCode row, name = lguName row, province_code = provinceCode row\<rparr>)"

definition barangay_record :: "AddressRow \<Rightarrow> Barangay" where
  "barangay_record row =
     \<lparr>code = barangayCode row, name = barangayName row,
      province_code = provinceCode row, lgu_code = lguCode row\<rparr>"

definition extract_regions :: "AddressRow list \<Rightarrow> Region list" where
  "extract_regions rows = map snd (new_Map (map region_entry rows))"

definition extract_provinces :: "AddressRow list \<Rightarrow> Province list" where
  "extract_provinces rows = map snd (new_Map (map province_entry rows))"

definition extract_lgus :: "AddressRow list \<Rightarrow> Lgu list" where
  "extract_lgus rows = map snd (new_Map (map lgu_entry rows))"

definition extract_barangays :: "AddressRow list \<Rightarrow> Barangay list" where
  "extract_barangays rows = map barangay_record rows"

section \<open>The load: \<^verbatim>\<open>uploadData\<close>\<close>

fun store_calls :: "event list \<Rightarrow> call list" where
  "store_calls [] = []"
| "store_calls (StoreCall c # evs) = c # store_calls evs"
| "store_calls (_ # evs) = store_calls evs"

text \<open>
  A step of the \<^verbatim>\<open>try\<close> block extends the events so far and either falls through
  (\<open>None\<close>) or throws.
\<close>

type_synonym step = "event list \<Rightarrow> thrown option \<times> event list"

definition await :: "store \<Rightarrow> call \<Rightarrow> event list \<Rightarrow> response \<times> event list" where
  "await db c evs = (db (store_calls evs) c, evs @ [StoreCall c])"

text \<open>
  \<^verbatim>\<open>await supabase.from(t).delete().neq('id', 0)\<close>: the result is discarded, so only
  a rejected promise leaves the block.
\<close>

definition clear_table :: "store \<Rightarrow> string \<Rightarrow> step" where
  "clear_table db t evs =
     (case await db (Delete t) evs of
        (Rejected x, evs') \<Rightarrow> (Some x, evs')
      | (Resolved _, evs') \<Rightarrow> (None, evs'))"

text \<open>
  \<^verbatim>\<open>const { error } = await supabase.from(t).insert(records);
  if (error) throw new Error(`Error inserting ${what}: ${error.message}`)\<close>
\<close>

definition insert_records :: "store \<Rightarrow> call \<Rightarrow> string \<Rightarrow> step" where
  "insert_records db c what evs =
     (case await db c evs of
        (Rejected x, evs') \<Rightarrow> (Some x, evs')
      | (Resolved None, evs') \<Rightarrow> (None, evs')
      | (Resolved (Some message), evs') \<Rightarrow>
          (Some (ErrorObject (''Error inserting '' @ what @ '': '' @ message)), evs'))"

definition and_then :: "step \<Rightarrow> step \<Rightarrow> step" where
  "and_then f g evs =
     (case f evs of (Some x, evs') \<Rightarrow> (Some x, evs') | (None, evs') \<Rightarrow> g evs')"

definition skip :: step where
  "skip evs = (None, evs)"

definition BATCH_SIZE :: nat where
  "BATCH_SIZE = 1000"

text \<open>\<^verbatim>\<open>xs.slice(a, b)\<close> for \<open>0 \<le> a \<le> b\<close>.\<close>

definition slice :: "'a list \<Rightarrow> nat \<Rightarrow> nat \<Rightarrow> 'a list" where
  "slice xs a b = take (b - a) (drop a xs)"

text \<open>
  \<^verbatim>\<open>for (let i = 0; i < barangays.length; i += BATCH_SIZE)\<close>, from the value of
  \<open>i\<close> onwards.  \<open>i\<close> is a multiple of the batch size, so \<^verbatim>\<open>i/BATCH_SIZE + 1\<close>
  is a whole number.
\<close>

function insert_batches :: "store \<Rightarrow> Barangay list \<Rightarrow> nat \<Rightarrow> step" where
  "insert_batches db bs i evs =
     (if i < length bs
      then (case insert_records db (InsertBarangays (slice bs i (i + BATCH_SIZE)))
                   (''barangays batch '' @ string_of_nat (i div BATCH_SIZE + 1)) evs of
              (Some x, evs') \<Rightarrow> (Some x, evs')
            | (None, evs') \<Rightarrow> insert_batches db bs (i + BATCH_SIZE) evs')
      else (None, evs))"
  by pat_completeness auto
termination
  by (relation "measure (\<lambda>(db, bs, i, evs). length bs - i)") (auto simp: BATCH_SIZE_def)

declare insert_batches.simps [simp del]

text \<open>Step 1: clear existing data in reverse order of dependencies.\<close>

definition clear_existing :: "store \<Rightarrow> step" where
  "clear_existing db =
     and_then (clear_table db ''barangays'')
    (and_then (clear_table db ''lgus'')
    (and_then (clear_table db ''provinces'')
              (clear_table db ''regions'')))"

text \<open>Step 2: insert new data in order of dependencies.\<close>

definition insert_new ::
    "store \<Rightarrow> Region list \<Rightarrow> Province list \<Rightarrow> Lgu list \<Rightarrow> Barangay list \<Rightarrow> step" where
  "insert_new db rs ps ls bs =
     and_then (if length rs > 0 then insert_records db (InsertRegions rs) ''regions'' else skip)
    (and_then (if length ps > 0 then insert_records db (InsertProvinces ps) ''provinces'' else skip)
    (and_then (if length ls > 0 then insert_records db (InsertLgus ls) ''LGUs'' else skip)
              (if length bs > 0 then insert_batches db bs 0 else skip)))"

definition replace_data ::
    "store \<Rightarrow> Region list \<Rightarrow> Province list \<Rightarrow> Lgu list \<Rightarrow> Barangay list \<Rightarrow> step" where
  "replace_data db rs ps ls bs = and_then (clear_existing db) (insert_new db rs ps ls bs)"

definition uploadData :: "store \<Rightarrow> page_state \<Rightarrow> page_state \<times> event list" where
  "uploadData db s =
     (if \<not> valid (validation s) \<or> length (parseRows s) = 0
      then (s, [Toast ToastError ''Please upload a valid CSV file first''])
      else
        (let rows = parseRows s;
             started = [SetUploadStatus Uploading,
                        Toast ToastInfo ''Processing data, please wait...'']
         in case replace_data db (extract_regions rows) (extract_provinces rows)
                   (extract_lgus rows) (extract_barangays rows) started of
              (None, evs) \<Rightarrow>
                (s\<lparr>uploadStatus := Success\<rparr>,
                 evs @ [SetUploadStatus Success,
                        Toast ToastSuccess ''Address data updated successfully!''])
            | (Some x, evs) \<Rightarrow>
                (s\<lparr>uploadStatus := Error\<rparr>,
                 evs @ [ConsoleError x, SetUploadStatus Error,
                        Toast ToastError
                          (case x of ErrorObject message \<Rightarrow> message
                           | OtherValue \<Rightarrow> ''Failed to update address data'')])))"

section \<open>Reference formulations and sample inputs\<close>

text \<open>
  The fields of a row that hold the empty string, by name and in the order of
  \<^term>\<open>requiredColumns\<close>: what the validator is expected to flag for that row.
\<close>

definition missing_fields :: "AddressRow \<Rightarrow> string list" where
  "missing_fields row =
     (if regionCode row = [] then [''regionCode''] else []) @
     (if regionName row = [] then [''regionName''] else []) @
     (if provinceCode row = [] then [''provinceCode''] else []) @
     (if provinceName row = [] then [''provinceName''] else []) @
     (if lguCode row = [] then [''lguCode''] else []) @
     (if lguName row = [] then [''lguName''] else []) @
     (if barangayCode row = [] then [''barangayCode''] else []) @
     (if barangayName row = [] then [''barangayName''] else [])"

definition sample_row :: AddressRow where
  "sample_row =
     \<lparr>regionCode = ''01'', regionName = ''R1'', provinceCode = ''P1'',
      provinceName = ''Prov1'', lguCode = ''L1'', lguName = ''Lgu1'',
      barangayCode = ''B1'', barangayName = ''Brgy1''\<rparr>"

definition renamed_row :: AddressRow where
  "renamed_row = sample_row\<lparr>regionName := ''R2''\<rparr>"

definition blank_name_row :: AddressRow where
  "blank_name_row = sample_row\<lparr>barangayName := []\<rparr>"

definition header_without_lguCode :: "string list" where
  "header_without_lguCode =
     [''regionCode'', ''regionName'', ''provinceCode'', ''provinceName'',
      ''lguName'', ''barangayCode'', ''barangayName'']"

text \<open>
  The value of a string of decimal digits, and what it is for a string to be the decimal
  numeral of a number: digits only, at least one, no leading zero, and that value.
\<close>

definition decimal_value :: "string \<Rightarrow> nat" where
  "decimal_value ds = foldl (\<lambda>a c. 10 * a + (of_char c - 48)) 0 ds"

definition is_decimal :: "string \<Rightarrow> nat \<Rightarrow> bool" where
  "is_decimal ds n \<longleftrightarrow>
     ds \<noteq> [] \<and> list_all (\<lambda>c. c \<in> set ''0123456789'') ds \<and>
     (ds = ''0'' \<or> hd ds \<noteq> CHR ''0'') \<and> decimal_value ds = n"

definition header_without_two :: "string list" where
  "header_without_two =
     [''regionCode'', ''regionName'', ''provinceCode'', ''provinceName'',
      ''lguName'', ''barangayCode'']"

definition blank_ends_row :: AddressRow where
  "blank_ends_row = sample_row\<lparr>regionCode := [], barangayName := []\<rparr>"

text \<open>
  Two files with blanks: eleven rows, the first without region code and barangay name
  and the last without barangay name; and a hundred rows, the last without barangay name.
\<close>

definition twelve_lines :: "AddressRow list" where
  "twelve_lines = blank_ends_row # replicate 9 sample_row @ [blank_name_row]"

definition hundred_lines :: "AddressRow list" where
  "hundred_lines = replicate 99 sample_row @ [blank_name_row]"

text \<open>The state after a successful validation of the one-row file of Scenario A.\<close>

definition sample_state :: page_state where
  "sample_state =
     fst (parseCSV (Complete [sample_row] [] (Some requiredColumns)) initial_state)"

text \<open>The state after validating a file of 2500 rows (Scenario D).\<close>

definition big_state :: page_state where
  "big_state =
     fst (parseCSV (Complete (replicate 2500 sample_row) [] (Some requiredColumns))
            initial_state)"

text \<open>A store that accepts every call.\<close>

definition accepting_store :: store where
  "accepting_store history c = Resolved None"

text \<open>
  A store whose clearing of the table \<open>lgus\<close> fails (the result carries an error) and
  that accepts every other call.
\<close>

definition lgus_clear_fails :: store where
  "lgus_clear_fails history c =
     (if c = Delete ''lgus'' then Resolved (Some ''permission denied'') else Resolved None)"

text \<open>
  The plan of a load, as the specification describes it: the four deletions, children
  before parents, then the insertions, parents before children, the barangays in
  consecutive batches of the batch size.  The number of batches is the size of the
  collection divided by the batch size, rounded up.
\<close>

definition planned_batches :: "Barangay list \<Rightarrow> Barangay list list" where
  "planned_batches bs =
     map (\<lambda>j. slice bs (j * BATCH_SIZE) (j * BATCH_SIZE + BATCH_SIZE))
         [0..<(length bs + BATCH_SIZE - 1) div BATCH_SIZE]"

definition planned_deletes :: "call list" where
  "planned_deletes =
     [Delete ''barangays'', Delete ''lgus'', Delete ''provinces'', Delete ''regions'']"

definition planned_inserts ::
    "Region list \<Rightarrow> Province list \<Rightarrow> Lgu list \<Rightarrow> Barangay list \<Rightarrow> call list" where
  "planned_inserts rs ps ls bs =
     (if rs = [] then [] else [InsertRegions rs]) @
     (if ps = [] then [] else [InsertProvinces ps]) @
     (if ls = [] then [] else [InsertLgus ls]) @
     map InsertBarangays (planned_batches bs)"

definition planned_calls ::
    "Region list \<Rightarrow> Province list \<Rightarrow> Lgu list \<Rightarrow> Barangay list \<Rightarrow> call list" where
  "planned_calls rs ps ls bs = planned_deletes @ planned_inserts rs ps ls bs"

text \<open>The payloads of the barangay insert calls among a list of calls, in order.\<close>

fun barangay_batches :: "call list \<Rightarrow> Barangay list list" where
  "barangay_batches [] = []"
| "barangay_batches (InsertBarangays b # cs) = b # barangay_batches cs"
| "barangay_batches (_ # cs) = barangay_batches cs"

fun is_insert :: "call \<Rightarrow> bool" where
  "is_insert (Delete t) = False"
| "is_insert _ = True"

text \<open>
  The rank of a call in the dependency order: deletions first, then the insertions
  into regions, provinces, LGUs and barangays.
\<close>

fun phase :: "call \<Rightarrow> nat" where
  "phase (Delete t) = 0"
| "phase (InsertRegions rs) = 1"
| "phase (InsertProvinces ps) = 2"
| "phase (InsertLgus ls) = 3"
| "phase (InsertBarangays bs) = 4"

text \<open>
  A step issues a plan when, from any events so far, it appends the calls of a prefix
  of the plan and nothing else, and the whole plan whenever it falls through.
\<close>

definition issues :: "step \<Rightarrow> call list \<Rightarrow> bool" where
  "issues f plan \<longleftrightarrow>
     (\<forall>evs. \<exists>n\<le>length plan.
        snd (f evs) = evs @ map StoreCall (take n plan) \<and>
        (fst (f evs) = None \<longrightarrow> n = length plan))"

section \<open>Properties of the validator\<close>

lemma foldl_push:
  "foldl (\<lambda>errs col. if P col then errs @ [f col] else errs) acc cols =
     acc @ map f (filter P cols)"
  by (induction cols arbitrary: acc) auto

lemma falsy_required:
  "filter (\<lambda>col. falsy (row_get col row)) requiredColumns = missing_fields row"
  by (simp add: requiredColumns_def row_get_def falsy_def missing_fields_def)

lemma check_row_eq:
  "check_row acc (i, row) = acc @ map (missing_value_message (i + 2)) (missing_fields row)"
  by (simp add: check_row_def foldl_push falsy_required)

lemma foldl_check_row:
  "foldl check_row acc (enumerate n data) =
     acc @ concat (map (\<lambda>(i, row). map (missing_value_message (i + 2)) (missing_fields row))
                       (enumerate n data))"
  by (induction data arbitrary: acc n) (auto simp: check_row_eq)

lemma validate_rows_eq:
  "validate_rows data =
     concat (map (\<lambda>(i, row). map (missing_value_message (i + 2)) (missing_fields row))
                 (enumerate 0 data))"
  by (simp add: validate_rows_def foldl_check_row)

lemma length_concat_enumerate:
  "length (concat (map (\<lambda>(i, row). map (g i) (h row)) (enumerate n data))) =
     sum_list (map (\<lambda>row. length (h row)) data)"
  by (induction data arbitrary: n) auto

lemma set_foldl_set_add: "set (foldl set_add acc xs) = set acc \<union> set xs"
  by (induction xs arbitrary: acc) (auto simp: set_add_def)

lemma distinct_foldl_set_add: "distinct acc \<Longrightarrow> distinct (foldl set_add acc xs)"
  by (induction xs arbitrary: acc) (auto simp: set_add_def)

lemma length_new_Set: "length (new_Set xs) = card (set xs)"
proof -
  have "distinct (new_Set xs)" "set (new_Set xs) = set xs"
    by (simp_all add: new_Set_def distinct_foldl_set_add set_foldl_set_add)
  then show ?thesis
    by (metis distinct_card)
qed

lemma no_missing_columns:
  "set requiredColumns \<subseteq> set (parsedColumns metaFields) \<Longrightarrow>
     filter (\<lambda>col. col \<notin> set (parsedColumns metaFields)) requiredColumns = []"
  by (auto simp: filter_empty_conv)

lemma complete_checked:
  assumes "set requiredColumns \<subseteq> set (parsedColumns metaFields)"
  shows "validation (fst (parseCSV (Complete data perrors metaFields) s)) =
           \<lparr>valid = (validate_rows data = []), errors = validate_rows data,
            stats = count_stats data\<rparr>"
  using no_missing_columns [OF assms]
  by (simp add: parseCSV_def complete_def Let_def)

lemma complete_missing:
  assumes "filter (\<lambda>col. col \<notin> set (parsedColumns metaFields)) requiredColumns \<noteq> []"
  shows "parseCSV (Complete data perrors metaFields) s =
           (s\<lparr>uploadStatus := Error,
              validation :=
                \<lparr>valid = False,
                 errors = [''Missing required columns: '' @ join '', ''
                    (filter (\<lambda>col. col \<notin> set (parsedColumns metaFields)) requiredColumns)],
                 stats = no_stats\<rparr>\<rparr>,
            [SetUploadStatus Validating, SetUploadStatus Error])"
  using assms by (simp add: parseCSV_def complete_def Let_def)

lemma digit_cases: "d < 10 \<Longrightarrow> d = 0 \<or> d = 1 \<or> d = 2 \<or> d = 3 \<or> d = 4 \<or> d = 5 \<or> d = 6 \<or> d = 7 \<or> d = 8 \<or> d = (9::nat)"
  by arith

lemma digit_char_value:
  assumes "d < 10"
  shows "of_char (digit_char d) = (48 + d :: nat)" and "digit_char d \<in> set ''0123456789''"
    and "d \<noteq> 0 \<Longrightarrow> digit_char d \<noteq> CHR ''0''"
  using digit_cases [OF assms] by (auto simp: digit_char_def)

lemma decimal_value_snoc: "decimal_value (ds @ [c]) = 10 * decimal_value ds + (of_char c - 48)"
  by (simp add: decimal_value_def)

lemma string_of_nat_nonempty: "string_of_nat n \<noteq> []"
  by (subst string_of_nat.simps) simp

lemma hd_string_of_nat: "0 < n \<Longrightarrow> hd (string_of_nat n) \<noteq> CHR ''0''"
proof (induction n rule: string_of_nat.induct)
  case (1 n)
  show ?case
  proof (cases "n < 10")
    case True
    with "1.prems" show ?thesis
      by (subst string_of_nat.simps) (simp add: digit_char_value(3))
  next
    case False
    then have "0 < n div 10" by simp
    with "1.IH" False have "hd (string_of_nat (n div 10)) \<noteq> CHR ''0''" by simp
    with False show ?thesis
      by (subst string_of_nat.simps) (simp add: string_of_nat_nonempty)
  qed
qed

lemma string_of_nat_decimal: "is_decimal (string_of_nat n) n"
proof -
  have digits: "list_all (\<lambda>c. c \<in> set ''0123456789'') (string_of_nat n)"
  proof (induction n rule: string_of_nat.induct)
    case (1 n)
    show ?case
    proof (cases "n < 10")
      case True
      then show ?thesis
        using digit_char_value(2) [of n] by (subst string_of_nat.simps) simp
    next
      case False
      with "1.IH" show ?thesis
        using digit_char_value(2) [of "n mod 10"] by (subst string_of_nat.simps) simp
    qed
  qed
  have val: "decimal_value (string_of_nat n) = n"
  proof (induction n rule: string_of_nat.induct)
    case (1 n)
    show ?case
    proof (cases "n < 10")
      case True
      then show ?thesis
        by (subst string_of_nat.simps) (simp add: decimal_value_def digit_char_value(1))
    next
      case False
      with "1.IH" have "decimal_value (string_of_nat (n div 10)) = n div 10" by simp
      with False show ?thesis
        by (subst string_of_nat.simps)
           (simp add: decimal_value_snoc digit_char_value(1))
    qed
  qed
  have lead: "string_of_nat n = ''0'' \<or> hd (string_of_nat n) \<noteq> CHR ''0''"
  proof (cases "n = 0")
    case True
    then show ?thesis
      by (subst string_of_nat.simps) (simp add: digit_char_def)
  next
    case False
    then show ?thesis
      using hd_string_of_nat [of n] by simp
  qed
  show ?thesis
    unfolding is_decimal_def using digits val lead string_of_nat_nonempty by blast
qed

lemma join_explicit:
  "cols \<noteq> [] \<Longrightarrow> join sep cols = concat (map (\<lambda>c. c @ sep) (butlast cols)) @ last cols"
  by (induction sep cols rule: join.induct) simp_all


lemma clean_rows_silent:
  "missing_fields r = [] \<Longrightarrow>
     [g i col. (i, row) \<leftarrow> enumerate n (replicate k r), col \<leftarrow> missing_fields row] = []"
  by (induction k arbitrary: n) simp_all

lemma validate_rows_clean:
  assumes "\<And>row. row \<in> set data \<Longrightarrow> missing_fields row = []"
  shows "validate_rows data = []"
proof -
  have "\<And>p. p \<in> set (enumerate 0 data) \<Longrightarrow> missing_fields (snd p) = []"
    using assms by (auto simp: in_set_enumerate_eq)
  then show ?thesis
    by (auto simp: validate_rows_eq)
qed

lemma valid_has_columns:
  assumes "valid (validation (fst (parseCSV (Complete data perrors metaFields) s)))"
  shows "set requiredColumns \<subseteq> set (parsedColumns metaFields)"
proof (rule ccontr)
  assume "\<not> set requiredColumns \<subseteq> set (parsedColumns metaFields)"
  then have "filter (\<lambda>col. col \<notin> set (parsedColumns metaFields)) requiredColumns \<noteq> []"
    by (auto simp: filter_empty_conv)
  from complete_missing [OF this, of data perrors s] assms show False
    by simp
qed

text \<open>
  Claim C4.  When the header lacks a non-empty set \<open>S\<close> of the eight required columns,
  the validation report is invalid, its counts are zero, and it carries exactly one
  message: \<open>Missing required columns: \<close> followed by the missing columns, in the order
  of the required list, each but the last followed by a comma and a space.  The rows
  are not examined: the outcome is the same whatever the rows are, the stored rows are
  left as they were, and the status becomes \<open>Error\<close>.
\<close>

theorem missing_columns_single_error:
  assumes "S = set requiredColumns - set (parsedColumns metaFields)" and "S \<noteq> {}"
  shows "validation (fst (parseCSV (Complete data perrors metaFields) s)) =
           \<lparr>valid = False,
            errors = [''Missing required columns: '' @
                        concat (map (\<lambda>col. col @ '', '')
                                    (butlast (filter (\<lambda>col. col \<in> S) requiredColumns))) @
                        last (filter (\<lambda>col. col \<in> S) requiredColumns)],
            stats = \<lparr>regions = 0, provinces = 0, lgus = 0, barangays = 0\<rparr>\<rparr>
       \<and> set (filter (\<lambda>col. col \<in> S) requiredColumns) = S
       \<and> requiredColumns =
           [''regionCode'', ''regionName'', ''provinceCode'', ''provinceName'',
            ''lguCode'', ''lguName'', ''barangayCode'', ''barangayName'']
       \<and> uploadStatus (fst (parseCSV (Complete data perrors metaFields) s)) = Error
       \<and> parseRows (fst (parseCSV (Complete data perrors metaFields) s)) = parseRows s
       \<and> parseCSV (Complete data' perrors' metaFields) s =
           parseCSV (Complete data perrors metaFields) s"
proof -
  let ?missing = "filter (\<lambda>col. col \<notin> set (parsedColumns metaFields)) requiredColumns"
  have same: "filter (\<lambda>col. col \<in> S) requiredColumns = ?missing"
    using assms(1) by (auto intro: filter_cong)
  have "set ?missing = S"
    using assms(1) by auto
  with assms(2) have ne: "?missing \<noteq> []"
    by (metis empty_set)
  have "validation (fst (parseCSV (Complete data perrors metaFields) s)) =
      \<lparr>valid = False,
       errors = [''Missing required columns: '' @
                   concat (map (\<lambda>col. col @ '', '') (butlast ?missing)) @ last ?missing],
       stats = \<lparr>regions = 0, provinces = 0, lgus = 0, barangays = 0\<rparr>\<rparr>"
    by (simp add: complete_missing [OF ne] join_explicit [OF ne] no_stats_def)
  moreover have "uploadStatus (fst (parseCSV (Complete data perrors metaFields) s)) = Error"
      "parseRows (fst (parseCSV (Complete data perrors metaFields) s)) = parseRows s"
      "parseCSV (Complete data' perrors' metaFields) s =
         parseCSV (Complete data perrors metaFields) s"
    by (simp_all add: complete_missing [OF ne])
  ultimately show ?thesis
    unfolding same using \<open>set ?missing = S\<close> requiredColumns_def by blast
qed

text \<open>
  Scenario B of the specification (a header that lacks only \<open>lguCode\<close>), a header
  that lacks two columns, and a file without header fields.
\<close>

theorem missing_columns_single_error_witness:
  "errors (validation (fst (parseCSV (Complete [sample_row] [] (Some header_without_lguCode))
                              initial_state))) =
     [''Missing required columns: lguCode'']
   \<and> errors (validation (fst (parseCSV (Complete [sample_row] [] (Some header_without_two))
                              initial_state))) =
     [''Missing required columns: lguCode, barangayName'']
   \<and> errors (validation (fst (parseCSV (Complete [sample_row] [] None) initial_state))) =
     [''Missing required columns: regionCode, regionName, provinceCode, provinceName, lguCode, lguName, barangayCode, barangayName'']"
proof -
  have one: "{''lguCode''} =
      set requiredColumns - set (parsedColumns (Some header_without_lguCode))"
    by (auto simp: requiredColumns_def parsedColumns_def header_without_lguCode_def)
  have two: "{''lguCode'', ''barangayName''} =
      set requiredColumns - set (parsedColumns (Some header_without_two))"
    by (auto simp: requiredColumns_def parsedColumns_def header_without_two_def)
  have all: "set requiredColumns = set requiredColumns - set (parsedColumns None)"
    by (simp add: parsedColumns_def)
  have ne: "{''lguCode''} \<noteq> ({} :: string set)"
      "{''lguCode'', ''barangayName''} \<noteq> ({} :: string set)"
      "set requiredColumns \<noteq> {}"
    by (simp_all add: requiredColumns_def)
  have "errors (validation (fst (parseCSV (Complete [sample_row] [] (Some header_without_lguCode))
      initial_state))) = [''Missing required columns: lguCode'']"
    by (simp add: missing_columns_single_error [OF one ne(1)] requiredColumns_def)
  moreover have "errors (validation (fst (parseCSV
      (Complete [sample_row] [] (Some header_without_two)) initial_state))) =
      [''Missing required columns: lguCode, barangayName'']"
    by (simp add: missing_columns_single_error [OF two ne(2)] requiredColumns_def)
  moreover have "errors (validation (fst (parseCSV (Complete [sample_row] [] None)
      initial_state))) =
      [''Missing required columns: regionCode, regionName, provinceCode, provinceName, lguCode, lguName, barangayCode, barangayName'']"
    by (simp add: missing_columns_single_error [OF all ne(3)] requiredColumns_def)
  ultimately show ?thesis
    by blast
qed

text \<open>
  Claim C5.  When all eight required columns are present, the violation list is, row by
  row in input order and field by field in the order of the required list, one message
  for each field of the row that is empty: the text \<open>Row \<close>, the decimal numeral of the
  0-based index of the row plus 2, the text \<open>: Missing value for \<close> and the name of the
  field.  Nothing is skipped, so the number of messages is the number of empty fields
  over all rows.  The report is valid exactly when the list is empty.
\<close>

theorem row_violations_enumerated:
  assumes "set requiredColumns \<subseteq> set (parsedColumns metaFields)"
  shows "errors (validation (fst (parseCSV (Complete data perrors metaFields) s))) =
           [''Row '' @ string_of_nat (i + 2) @ '': Missing value for '' @ col.
              (i, row) \<leftarrow> enumerate 0 data, col \<leftarrow> missing_fields row]
       \<and> (\<forall>n. is_decimal (string_of_nat n) n)
       \<and> length (errors (validation (fst (parseCSV (Complete data perrors metaFields) s)))) =
           sum_list (map (\<lambda>row. length (missing_fields row)) data)
       \<and> valid (validation (fst (parseCSV (Complete data perrors metaFields) s))) =
           (errors (validation (fst (parseCSV (Complete data perrors metaFields) s))) = [])"
proof -
  have "\<And>i. missing_value_message (i + 2) =
      (\<lambda>col. ''Row '' @ string_of_nat (i + 2) @ '': Missing value for '' @ col)"
    by (simp add: missing_value_message_def fun_eq_iff)
  then show ?thesis
    using string_of_nat_decimal
    by (simp add: complete_checked [OF assms] validate_rows_eq length_concat_enumerate)
qed


theorem row_violations_enumerated_witness:
  "set requiredColumns \<subseteq> set (parsedColumns (Some requiredColumns))
   \<and> errors (validation (fst (parseCSV
        (Complete twelve_lines [] (Some requiredColumns)) initial_state))) =
       [''Row 2: Missing value for regionCode'', ''Row 2: Missing value for barangayName'',
        ''Row 12: Missing value for barangayName'']
   \<and> errors (validation (fst (parseCSV
        (Complete hundred_lines [] (Some requiredColumns)) initial_state))) =
       [''Row 101: Missing value for barangayName'']
   \<and> \<not> valid (validation (fst (parseCSV
        (Complete twelve_lines [] (Some requiredColumns)) initial_state)))"
proof -
  have h: "set requiredColumns \<subseteq> set (parsedColumns (Some requiredColumns))"
    by (simp add: parsedColumns_def)
  have numbers: "string_of_nat (Suc (Suc 0)) = ''2''" "string_of_nat 12 = ''12''"
      "string_of_nat 101 = ''101''"
    by (simp_all add: string_of_nat.simps digit_char_def)
  have m: "missing_fields sample_row = []"
      "missing_fields blank_name_row = [''barangayName'']"
      "missing_fields blank_ends_row = [''regionCode'', ''barangayName'']"
    by (simp_all add: missing_fields_def sample_row_def blank_name_row_def blank_ends_row_def)
  note t = row_violations_enumerated [OF h, of _ "[]" initial_state]
  have "errors (validation (fst (parseCSV
        (Complete twelve_lines [] (Some requiredColumns)) initial_state))) =
       [''Row 2: Missing value for regionCode'', ''Row 2: Missing value for barangayName'',
        ''Row 12: Missing value for barangayName'']"
    using t [of twelve_lines]
    by (simp add: twelve_lines_def enumerate_append_eq clean_rows_silent m numbers)
  moreover have "errors (validation (fst (parseCSV
        (Complete hundred_lines [] (Some requiredColumns)) initial_state))) =
       [''Row 101: Missing value for barangayName'']"
    using t [of hundred_lines]
    by (simp add: hundred_lines_def enumerate_append_eq clean_rows_silent m numbers)
  moreover from calculation(1) t [of twelve_lines]
  have "\<not> valid (validation (fst (parseCSV
        (Complete twelve_lines [] (Some requiredColumns)) initial_state)))"
    by simp
  ultimately show ?thesis
    using h by blast
qed

text \<open>
  Claim C2, as the code has it.  For a valid input (the report of the validation is
  valid, so every required column is present and no value is empty),
  \<open>stats.barangays\<close> is the number of distinct \<open>barangayCode\<close> values among the rows
  (the size of a \<^verbatim>\<open>Set\<close> of the codes), not the number of rows.  It never exceeds the
  number of rows and equals it exactly when no two rows share a barangay code.
\<close>

theorem barangay_stat_counts_distinct_codes:
  assumes "valid (validation (fst (parseCSV (Complete data perrors metaFields) s)))"
  shows "barangays (stats (validation (fst (parseCSV (Complete data perrors metaFields) s)))) =
           card (barangayCode ` set data)
       \<and> barangays (stats (validation (fst (parseCSV (Complete data perrors metaFields) s))))
           \<le> length data
       \<and> (barangays (stats (validation (fst (parseCSV (Complete data perrors metaFields) s)))) =
            length data \<longleftrightarrow> distinct (map barangayCode data))"
proof -
  note cols = valid_has_columns [OF assms]
  have b: "barangays (stats (validation (fst (parseCSV (Complete data perrors metaFields) s)))) =
      card (set (map barangayCode data))"
    by (simp add: complete_checked [OF cols] count_stats_def length_new_Set)
  have "card (set (map barangayCode data)) \<le> length (map barangayCode data)"
    by (rule card_length)
  moreover have "card (set (map barangayCode data)) = length (map barangayCode data)
      \<longleftrightarrow> distinct (map barangayCode data)"
    by (metis card_distinct distinct_card)
  ultimately show ?thesis
    using b by simp
qed

theorem barangay_stat_counts_distinct_codes_witness:
  "valid (validation (fst (parseCSV
      (Complete [sample_row, renamed_row, sample_row] [] (Some requiredColumns))
      initial_state)))
   \<and> barangays (stats (validation (fst (parseCSV
        (Complete [sample_row, renamed_row, sample_row] [] (Some requiredColumns))
        initial_state)))) = 1
   \<and> length [sample_row, renamed_row, sample_row] = 3"
proof -
  have cols: "set requiredColumns \<subseteq> set (parsedColumns (Some requiredColumns))"
    by (simp add: parsedColumns_def)
  have "missing_fields sample_row = []" "missing_fields renamed_row = []"
    by (simp_all add: missing_fields_def sample_row_def renamed_row_def)
  then have "validate_rows [sample_row, renamed_row, sample_row] = []"
    by (intro validate_rows_clean) auto
  then have h: "valid (validation (fst (parseCSV
      (Complete [sample_row, renamed_row, sample_row] [] (Some requiredColumns))
      initial_state)))"
    by (simp add: complete_checked [OF cols])
  from barangay_stat_counts_distinct_codes [OF h]
  have "barangays (stats (validation (fst (parseCSV
        (Complete [sample_row, renamed_row, sample_row] [] (Some requiredColumns))
        initial_state)))) = card (barangayCode ` set [sample_row, renamed_row, sample_row])"
    by blast
  also have "\<dots> = 1"
    by (simp add: sample_row_def renamed_row_def)
  finally show ?thesis
    using h by simp
qed

text \<open>
  Two valid rows that share the barangay code \<open>B1\<close>: the report is valid and counts one
  barangay, not two.
\<close>

theorem barangay_stat_counterexample:
  "valid (validation (fst (parseCSV
      (Complete [sample_row, renamed_row] [] (Some requiredColumns)) initial_state)))
   \<and> barangays (stats (validation (fst (parseCSV
      (Complete [sample_row, renamed_row] [] (Some requiredColumns)) initial_state)))) = 1
   \<and> barangays (stats (validation (fst (parseCSV
      (Complete [sample_row, renamed_row] [] (Some requiredColumns)) initial_state))))
        \<noteq> length [sample_row, renamed_row]"
  by (simp add: parseCSV_def complete_def parsedColumns_def requiredColumns_def
      validate_rows_def check_row_def row_get_def falsy_def count_stats_def new_Set_def
      set_add_def sample_row_def renamed_row_def enumerate_eq_zip)

section \<open>Properties of the extraction\<close>

lemma distinct_new_Set: "distinct (new_Set xs)"
  by (simp add: new_Set_def distinct_foldl_set_add)

lemma set_new_Set: "set (new_Set xs) = set xs"
  by (simp add: new_Set_def set_foldl_set_add)

lemma map_set_keys: "map fst (map_set m kv) = set_add (map fst m) (fst kv)"
  by (induction m) (auto simp: set_add_def)

lemma foldl_map_set_keys:
  "map fst (foldl map_set m es) = foldl set_add (map fst m) (map fst es)"
  by (induction es arbitrary: m) (simp_all add: map_set_keys)

lemma new_Map_keys: "map fst (new_Map es) = new_Set (map fst es)"
  by (simp add: new_Map_def new_Set_def foldl_map_set_keys)

lemma map_of_map_set: "map_of (map_set m kv) = (map_of m)(fst kv \<mapsto> snd kv)"
  by (induction m) (auto simp: fun_eq_iff)

lemma map_of_foldl_map_set:
  "map_of (foldl map_set m es) = map_of m ++ map_of (rev es)"
proof (induction es arbitrary: m)
  case Nil
  then show ?case by simp
next
  case (Cons e es)
  have "map_of (map_set m e) ++ map_of (rev es) = map_of m ++ (map_of (rev es @ [e]))"
    by (simp add: map_of_map_set fun_eq_iff map_add_def split: option.splits)
  with Cons show ?case by simp
qed

lemma map_of_new_Map: "map_of (new_Map es) = map_of (rev es)"
  by (simp add: new_Map_def map_of_foldl_map_set)

lemma last_entry_wins:
  assumes "\<And>row. fst (entry row) = key row" and "k \<in> key ` set rows"
  shows "map_of (rev (map entry rows)) k =
           Some (snd (entry (last (filter (\<lambda>row. key row = k) rows))))"
  using assms(2)
proof (induction rows rule: rev_induct)
  case Nil
  then show ?case by simp
next
  case (snoc x xs)
  show ?case
  proof (cases "key x = k")
    case True
    then show ?thesis by (simp add: assms(1))
  next
    case False
    with snoc.prems have "k \<in> key ` set xs" by auto
    with snoc.IH False show ?thesis by (simp add: assms(1))
  qed
qed

lemma alist_by_keys:
  assumes "distinct (map fst m)"
  shows "map snd m = map (\<lambda>k. the (map_of m k)) (map fst m)"
proof -
  have "\<And>p. p \<in> set m \<Longrightarrow> the (map_of m (fst p)) = snd p"
  proof -
    fix p assume "p \<in> set m"
    then have "(fst p, snd p) \<in> set m" by simp
    with assms have "map_of m (fst p) = Some (snd p)"
      by (rule map_of_is_SomeI)
    then show "the (map_of m (fst p)) = snd p" by simp
  qed
  then show ?thesis
    by (simp add: comp_def)
qed

lemma new_Map_last_wins:
  assumes "\<And>row. fst (entry row) = key row"
  shows "map snd (new_Map (map entry rows)) =
           map (\<lambda>k. snd (entry (last (filter (\<lambda>row. key row = k) rows))))
               (new_Set (map key rows))"
proof -
  let ?m = "new_Map (map entry rows)"
  have keys: "map fst ?m = new_Set (map key rows)"
    by (simp add: new_Map_keys assms comp_def)
  then have "distinct (map fst ?m)"
    by (simp add: distinct_new_Set)
  then have "map snd ?m =
      map (\<lambda>k. the (map_of (rev (map entry rows)) k)) (new_Set (map key rows))"
    using alist_by_keys [of ?m] by (simp add: keys map_of_new_Map)
  also have "\<dots> = map (\<lambda>k. snd (entry (last (filter (\<lambda>row. key row = k) rows))))
               (new_Set (map key rows))"
    by (rule map_cong) (simp_all add: set_new_Set last_entry_wins [OF assms])
  finally show ?thesis .
qed

lemma codes_of_last:
  assumes "\<And>row. c (e row) = key row"
  shows "map c (map (\<lambda>k. e (last (filter (\<lambda>row. key row = k) rows)))
                    (new_Set (map key rows))) =
           new_Set (map key rows)"
proof -
  have "\<And>k. k \<in> set (new_Set (map key rows)) \<Longrightarrow>
      c (e (last (filter (\<lambda>row. key row = k) rows))) = k"
  proof -
    fix k assume "k \<in> set (new_Set (map key rows))"
    then have "filter (\<lambda>row. key row = k) rows \<noteq> []"
      by (auto simp: set_new_Set filter_empty_conv)
    then have "last (filter (\<lambda>row. key row = k) rows)
        \<in> set (filter (\<lambda>row. key row = k) rows)"
      by (rule last_in_set)
    then show "c (e (last (filter (\<lambda>row. key row = k) rows))) = k"
      by (simp add: assms)
  qed
  then show ?thesis
    by (simp add: map_idI)
qed

lemma extract_regions_last:
  "extract_regions rows =
     map (\<lambda>k. snd (region_entry (last (filter (\<lambda>row. regionCode row = k) rows))))
         (new_Set (map regionCode rows))"
  unfolding extract_regions_def
  by (rule new_Map_last_wins) (simp add: region_entry_def)

lemma extract_provinces_last:
  "extract_provinces rows =
     map (\<lambda>k. snd (province_entry (last (filter (\<lambda>row. provinceCode row = k) rows))))
         (new_Set (map provinceCode rows))"
  unfolding extract_provinces_def
  by (rule new_Map_last_wins) (simp add: province_entry_def)

lemma extract_lgus_last:
  "extract_lgus rows =
     map (\<lambda>k. snd (lgu_entry (last (filter (\<lambda>row. lguCode row = k) rows))))
         (new_Set (map lguCode rows))"
  unfolding extract_lgus_def
  by (rule new_Map_last_wins) (simp add: lgu_entry_def)

lemma extract_codes:
  "map code (extract_regions rows) = new_Set (map regionCode rows)"
  "map code (extract_provinces rows) = new_Set (map provinceCode rows)"
  "map code (extract_lgus rows) = new_Set (map lguCode rows)"
  unfolding extract_regions_last extract_provinces_last extract_lgus_last
  by (rule codes_of_last, simp add: region_entry_def province_entry_def lgu_entry_def)+

lemma new_Map_Nil: "new_Map es = [] \<longleftrightarrow> es = []"
proof
  assume "new_Map es = []"
  then have "set (map fst (new_Map es)) = {}" by simp
  then show "es = []"
    by (simp add: new_Map_keys set_new_Set)
next
  assume "es = []"
  then show "new_Map es = []" by (simp add: new_Map_def)
qed

lemma extract_Nil:
  "extract_regions rows = [] \<longleftrightarrow> rows = []"
  "extract_provinces rows = [] \<longleftrightarrow> rows = []"
  "extract_lgus rows = [] \<longleftrightarrow> rows = []"
  "extract_barangays rows = [] \<longleftrightarrow> rows = []"
  by (simp_all add: extract_regions_def extract_provinces_def extract_lgus_def
      extract_barangays_def new_Map_Nil)

text \<open>
  Claim C1, as the code has it.  Each of the Region, Province and Lgu collections holds
  exactly one record per distinct code of the rows, the codes in the order of their
  first occurrence (\<^term>\<open>new_Set\<close> lists the distinct values in that order), and the
  record stored for a code is the one derived from the last row that carries the code:
  a later row with the same code replaces the name and parent of an earlier one.
\<close>

theorem extraction_last_occurrence_wins:
  "extract_regions rows =
     map (\<lambda>k. snd (region_entry (last (filter (\<lambda>row. regionCode row = k) rows))))
         (new_Set (map regionCode rows))
   \<and> extract_provinces rows =
     map (\<lambda>k. snd (province_entry (last (filter (\<lambda>row. provinceCode row = k) rows))))
         (new_Set (map provinceCode rows))
   \<and> extract_lgus rows =
     map (\<lambda>k. snd (lgu_entry (last (filter (\<lambda>row. lguCode row = k) rows))))
         (new_Set (map lguCode rows))
   \<and> distinct (map code (extract_regions rows))
   \<and> distinct (map code (extract_provinces rows))
   \<and> distinct (map code (extract_lgus rows))
   \<and> set (map code (extract_regions rows)) = regionCode ` set rows
   \<and> set (map code (extract_provinces rows)) = provinceCode ` set rows
   \<and> set (map code (extract_lgus rows)) = lguCode ` set rows"
proof -
  have "distinct (map code (extract_regions rows))"
      "distinct (map code (extract_provinces rows))"
      "distinct (map code (extract_lgus rows))"
    by (simp_all add: extract_codes distinct_new_Set)
  moreover have "set (map code (extract_regions rows)) = regionCode ` set rows"
      "set (map code (extract_provinces rows)) = provinceCode ` set rows"
      "set (map code (extract_lgus rows)) = lguCode ` set rows"
    by (simp_all only: extract_codes set_new_Set set_map)
  ultimately show ?thesis
    using extract_regions_last [of rows] extract_provinces_last [of rows]
      extract_lgus_last [of rows]
    by blast
qed

text \<open>
  Two rows with the region code \<open>01\<close> and the names \<open>R1\<close> and \<open>R2\<close>: the one region
  extracted carries the name of the second row, not of the first.
\<close>

theorem first_occurrence_counterexample:
  "extract_regions [sample_row, renamed_row] = [\<lparr>code = ''01'', name = ''R2''\<rparr>]
   \<and> snd (region_entry sample_row) = \<lparr>code = ''01'', name = ''R1''\<rparr>
   \<and> extract_regions [sample_row, renamed_row] \<noteq> [snd (region_entry sample_row)]"
  by (simp add: extract_regions_def new_Map_def region_entry_def sample_row_def
      renamed_row_def)

text \<open>
  Claim C6.  The Barangay collection has one record per input row, in input order:
  as many records as rows, the record at each position built from the row at that
  position, so the codes of the records are the barangay codes of the rows with every
  repetition kept.
\<close>

theorem barangays_pass_through:
  "length (extract_barangays rows) = length rows
   \<and> (\<forall>i<length rows. extract_barangays rows ! i = barangay_record (rows ! i))
   \<and> map code (extract_barangays rows) = map barangayCode rows"
  by (simp add: extract_barangays_def barangay_record_def comp_def)

theorem barangays_pass_through_witness:
  "(1::nat) < length [sample_row, renamed_row]
   \<and> length (extract_barangays [sample_row, renamed_row]) = 2
   \<and> extract_barangays [sample_row, renamed_row] ! 1 = barangay_record renamed_row
   \<and> map code (extract_barangays [sample_row, renamed_row]) = [''B1'', ''B1'']"
  using barangays_pass_through [of "[sample_row, renamed_row]"]
  by (simp add: sample_row_def renamed_row_def)

section \<open>Properties of the load\<close>

lemma store_calls_append: "store_calls (xs @ ys) = store_calls xs @ store_calls ys"
  by (induction xs rule: store_calls.induct) auto

lemma store_calls_map: "store_calls (map StoreCall cs) = cs"
  by (induction cs) auto

lemma upload_rejected_calls:
  assumes "\<not> valid (validation s) \<or> parseRows s = []"
  shows "snd (uploadData db s) = [Toast ToastError ''Please upload a valid CSV file first'']"
  using assms by (auto simp: uploadData_def)

lemma sample_state_eq:
  "sample_state =
     \<lparr>parseRows = [sample_row], parseErrors = [], uploadStatus = Idle,
      validation = \<lparr>valid = True, errors = [],
                    stats = \<lparr>regions = 1, provinces = 1, lgus = 1, barangays = 1\<rparr>\<rparr>\<rparr>"
  by (simp add: sample_state_def parseCSV_def complete_def parsedColumns_def
      validate_rows_eq missing_fields_def count_stats_def new_Set_def set_add_def
      sample_row_def initial_state_def)

text \<open>
  Claim C9.  When the last validation report is not valid, or there are no parsed rows,
  \<^verbatim>\<open>uploadData\<close> only shows an error toast: the state is unchanged, no call reaches
  the store, and the status is never set to \<open>Uploading\<close>.
\<close>

theorem upload_rejected:
  assumes "\<not> valid (validation s) \<or> parseRows s = []"
  shows "uploadData db s = (s, [Toast ToastError ''Please upload a valid CSV file first''])
       \<and> store_calls (snd (uploadData db s)) = []
       \<and> SetUploadStatus Uploading \<notin> set (snd (uploadData db s))"
  using assms by (auto simp: uploadData_def)

theorem upload_rejected_witness:
  "parseRows initial_state = []
   \<and> uploadData accepting_store initial_state =
       (initial_state, [Toast ToastError ''Please upload a valid CSV file first''])
   \<and> store_calls (snd (uploadData accepting_store initial_state)) = []"
proof -
  have h: "\<not> valid (validation initial_state) \<or> parseRows initial_state = []"
    by (simp add: initial_state_def)
  show ?thesis
    using upload_rejected [OF h, of accepting_store]
    by (simp add: initial_state_def)
qed

text \<open>
  Claim C3 at a store whose clearing of \<open>lgus\<close> fails: the result of the delete is
  discarded, so the load goes on, issues the remaining deletes and every insert, and
  ends in \<open>Success\<close>.
\<close>

theorem ignored_clear_failure:
  "uploadData lgus_clear_fails sample_state =
     (sample_state\<lparr>uploadStatus := Success\<rparr>,
      [SetUploadStatus Uploading,
       Toast ToastInfo ''Processing data, please wait...'',
       StoreCall (Delete ''barangays''), StoreCall (Delete ''lgus''),
       StoreCall (Delete ''provinces''), StoreCall (Delete ''regions''),
       StoreCall (InsertRegions [\<lparr>code = ''01'', name = ''R1''\<rparr>]),
       StoreCall (InsertProvinces
         [\<lparr>code = ''P1'', name = ''Prov1'', region_code = ''01''\<rparr>]),
       StoreCall (InsertLgus [\<lparr>code = ''L1'', name = ''Lgu1'', province_code = ''P1''\<rparr>]),
       StoreCall (InsertBarangays
         [\<lparr>code = ''B1'', name = ''Brgy1'', province_code = ''P1'', lgu_code = ''L1''\<rparr>]),
       SetUploadStatus Success,
       Toast ToastSuccess ''Address data updated successfully!''])"
  by (simp add: sample_state_eq uploadData_def replace_data_def clear_existing_def
      insert_new_def and_then_def clear_table_def insert_records_def await_def
      insert_batches.simps BATCH_SIZE_def slice_def lgus_clear_fails_def
      extract_regions_def extract_provinces_def extract_lgus_def extract_barangays_def
      new_Map_def region_entry_def province_entry_def lgu_entry_def barangay_record_def
      sample_row_def)

text \<open>
  The upload above was accepted (the report is valid and there is a row), the failed
  clearing of \<open>lgus\<close> is among its calls, and inserts follow it.
\<close>

theorem ignored_clear_failure_witness:
  "valid (validation sample_state) \<and> parseRows sample_state \<noteq> []
   \<and> lgus_clear_fails [Delete ''barangays''] (Delete ''lgus'') =
       Resolved (Some ''permission denied'')
   \<and> uploadStatus (fst (uploadData lgus_clear_fails sample_state)) = Success
   \<and> drop 1 (store_calls (snd (uploadData lgus_clear_fails sample_state))) =
       [Delete ''lgus'', Delete ''provinces'', Delete ''regions'',
        InsertRegions [\<lparr>code = ''01'', name = ''R1''\<rparr>],
        InsertProvinces [\<lparr>code = ''P1'', name = ''Prov1'', region_code = ''01''\<rparr>],
        InsertLgus [\<lparr>code = ''L1'', name = ''Lgu1'', province_code = ''P1''\<rparr>],
        InsertBarangays
          [\<lparr>code = ''B1'', name = ''Brgy1'', province_code = ''P1'', lgu_code = ''L1''\<rparr>]]"
proof -
  have "valid (validation sample_state)" "parseRows sample_state \<noteq> []"
    by (simp_all add: sample_state_eq)
  moreover have "lgus_clear_fails [Delete ''barangays''] (Delete ''lgus'') =
      Resolved (Some ''permission denied'')"
    by (simp add: lgus_clear_fails_def)
  ultimately show ?thesis
    by (simp add: ignored_clear_failure)
qed

subsection \<open>The calls of a load are a prefix of its plan\<close>

lemma issues_skip: "issues skip []"
  by (simp add: issues_def skip_def)

lemma issues_clear_table: "issues (clear_table db t) [Delete t]"
  unfolding issues_def
proof
  fix evs
  show "\<exists>n\<le>length [Delete t].
          snd (clear_table db t evs) = evs @ map StoreCall (take n [Delete t]) \<and>
          (fst (clear_table db t evs) = None \<longrightarrow> n = length [Delete t])"
    by (rule exI [of _ 1])
       (simp add: clear_table_def await_def split: response.splits)
qed

lemma issues_insert_records: "issues (insert_records db c what) [c]"
  unfolding issues_def
proof
  fix evs
  show "\<exists>n\<le>length [c].
          snd (insert_records db c what evs) = evs @ map StoreCall (take n [c]) \<and>
          (fst (insert_records db c what evs) = None \<longrightarrow> n = length [c])"
    by (rule exI [of _ 1])
       (simp add: insert_records_def await_def split: response.splits option.splits)
qed

lemma issues_and_then:
  assumes f: "issues f p" and g: "issues g q"
  shows "issues (and_then f g) (p @ q)"
  unfolding issues_def
proof
  fix evs
  from f obtain n where n: "n \<le> length p"
      "snd (f evs) = evs @ map StoreCall (take n p)"
      "fst (f evs) = None \<longrightarrow> n = length p"
    unfolding issues_def by blast
  show "\<exists>k\<le>length (p @ q).
          snd (and_then f g evs) = evs @ map StoreCall (take k (p @ q)) \<and>
          (fst (and_then f g evs) = None \<longrightarrow> k = length (p @ q))"
  proof (cases "fst (f evs)")
    case (Some x)
    then have "and_then f g evs = f evs"
      by (cases "f evs") (simp add: and_then_def)
    with n Some show ?thesis
      by (intro exI [of _ n]) simp
  next
    case None
    then have run: "and_then f g evs = g (snd (f evs))"
      by (cases "f evs") (simp add: and_then_def)
    from g obtain m where m: "m \<le> length q"
        "snd (g (snd (f evs))) = snd (f evs) @ map StoreCall (take m q)"
        "fst (g (snd (f evs))) = None \<longrightarrow> m = length q"
      unfolding issues_def by blast
    from n None have "n = length p" by simp
    with n m run show ?thesis
      by (intro exI [of _ "length p + m"]) simp
  qed
qed

lemma batch_bound: "(m * BATCH_SIZE < k) = (m < (k + BATCH_SIZE - 1) div BATCH_SIZE)"
  unfolding BATCH_SIZE_def by arith

lemma insert_batches_step:
  assumes "m * BATCH_SIZE < length bs"
  shows "insert_batches db bs (m * BATCH_SIZE) =
           and_then
             (insert_records db
                (InsertBarangays (slice bs (m * BATCH_SIZE) (m * BATCH_SIZE + BATCH_SIZE)))
                (''barangays batch '' @ string_of_nat (m * BATCH_SIZE div BATCH_SIZE + 1)))
             (insert_batches db bs (Suc m * BATCH_SIZE))"
proof
  fix evs
  show "insert_batches db bs (m * BATCH_SIZE) evs =
           and_then
             (insert_records db
                (InsertBarangays (slice bs (m * BATCH_SIZE) (m * BATCH_SIZE + BATCH_SIZE)))
                (''barangays batch '' @ string_of_nat (m * BATCH_SIZE div BATCH_SIZE + 1)))
             (insert_batches db bs (Suc m * BATCH_SIZE)) evs"
    using assms
    by (subst insert_batches.simps)
       (simp add: and_then_def add.commute split: prod.splits option.splits)
qed

lemma insert_batches_done:
  assumes "\<not> m * BATCH_SIZE < length bs"
  shows "insert_batches db bs (m * BATCH_SIZE) = skip"
proof
  fix evs
  show "insert_batches db bs (m * BATCH_SIZE) evs = skip evs"
    using assms by (subst insert_batches.simps) (simp add: skip_def)
qed

lemma issues_insert_batches:
  "issues (insert_batches db bs (m * BATCH_SIZE))
     (map InsertBarangays (drop m (planned_batches bs)))"
proof (induction "(length bs + BATCH_SIZE - 1) div BATCH_SIZE - m" arbitrary: m)
  case 0
  then have "\<not> m * BATCH_SIZE < length bs"
    by (simp add: batch_bound)
  moreover from 0 have "drop m (planned_batches bs) = []"
    by (simp add: planned_batches_def)
  ultimately show ?case
    by (simp add: insert_batches_done issues_skip)
next
  case (Suc d)
  then have less: "m < (length bs + BATCH_SIZE - 1) div BATCH_SIZE"
    by simp
  then have lt: "m * BATCH_SIZE < length bs"
    by (simp add: batch_bound)
  have "drop m (planned_batches bs) =
      slice bs (m * BATCH_SIZE) (m * BATCH_SIZE + BATCH_SIZE) # drop (Suc m) (planned_batches bs)"
  proof -
    from less have "m < length (planned_batches bs)"
      by (simp add: planned_batches_def)
    then have "planned_batches bs ! m # drop (Suc m) (planned_batches bs) =
        drop m (planned_batches bs)"
      by (rule Cons_nth_drop_Suc)
    moreover from less have "planned_batches bs ! m =
        slice bs (m * BATCH_SIZE) (m * BATCH_SIZE + BATCH_SIZE)"
      by (simp add: planned_batches_def)
    ultimately show ?thesis
      by simp
  qed
  moreover have "issues (insert_batches db bs (Suc m * BATCH_SIZE))
      (map InsertBarangays (drop (Suc m) (planned_batches bs)))"
  proof -
    from Suc.hyps(2) have "d = (length bs + BATCH_SIZE - 1) div BATCH_SIZE - Suc m"
      by simp
    then show ?thesis
      by (rule Suc.hyps(1))
  qed
  ultimately show ?case
    using issues_and_then [OF issues_insert_records,
        of "insert_batches db bs (Suc m * BATCH_SIZE)"
        "map InsertBarangays (drop (Suc m) (planned_batches bs))" db
        "InsertBarangays (slice bs (m * BATCH_SIZE) (m * BATCH_SIZE + BATCH_SIZE))"]
    by (simp add: insert_batches_step [OF lt])
qed

lemma planned_batches_Nil: "planned_batches [] = []"
  by (simp add: planned_batches_def BATCH_SIZE_def)

lemma issues_clear_existing:
  "issues (clear_existing db)
     [Delete ''barangays'', Delete ''lgus'', Delete ''provinces'', Delete ''regions'']"
  unfolding clear_existing_def
  using issues_and_then [OF issues_clear_table issues_and_then [OF issues_clear_table
      issues_and_then [OF issues_clear_table issues_clear_table]]]
  by simp

lemma issues_guarded:
  "issues (if length xs > 0 then insert_records db c what else skip)
     (if xs = [] then [] else [c])"
  by (simp add: issues_skip issues_insert_records)

lemma issues_guarded_batches:
  "issues (if length bs > 0 then insert_batches db bs 0 else skip)
     (map InsertBarangays (planned_batches bs))"
  using issues_insert_batches [of db bs 0]
  by (auto simp: issues_skip planned_batches_Nil)

lemma issues_replace_data:
  "issues (replace_data db rs ps ls bs) (planned_calls rs ps ls bs)"
  unfolding replace_data_def planned_calls_def planned_deletes_def planned_inserts_def
    insert_new_def
  by (intro issues_and_then issues_clear_existing issues_guarded issues_guarded_batches)

lemma upload_accepted:
  assumes "valid (validation s)" and "parseRows s \<noteq> []"
  shows "\<exists>n\<le>length (planned_calls (extract_regions (parseRows s))
                  (extract_provinces (parseRows s)) (extract_lgus (parseRows s))
                  (extract_barangays (parseRows s))).
           store_calls (snd (uploadData db s)) =
             take n (planned_calls (extract_regions (parseRows s))
                  (extract_provinces (parseRows s)) (extract_lgus (parseRows s))
                  (extract_barangays (parseRows s))) \<and>
           (SetUploadStatus Success \<in> set (snd (uploadData db s)) \<longrightarrow>
              n = length (planned_calls (extract_regions (parseRows s))
                  (extract_provinces (parseRows s)) (extract_lgus (parseRows s))
                  (extract_barangays (parseRows s))))"
proof -
  let ?plan = "planned_calls (extract_regions (parseRows s)) (extract_provinces (parseRows s))
                  (extract_lgus (parseRows s)) (extract_barangays (parseRows s))"
  let ?started = "[SetUploadStatus Uploading,
                   Toast ToastInfo ''Processing data, please wait...'']"
  let ?run = "replace_data db (extract_regions (parseRows s)) (extract_provinces (parseRows s))
                  (extract_lgus (parseRows s)) (extract_barangays (parseRows s)) ?started"
  from issues_replace_data obtain n where n: "n \<le> length ?plan"
      "snd ?run = ?started @ map StoreCall (take n ?plan)"
      "fst ?run = None \<longrightarrow> n = length ?plan"
    unfolding issues_def by blast
  show ?thesis
  proof (cases "fst ?run")
    case None
    with n have "n = length ?plan" by simp
    moreover from None assms n(2) have "store_calls (snd (uploadData db s)) = take n ?plan"
      by (cases ?run)
         (simp add: uploadData_def Let_def store_calls_append store_calls_map)
    ultimately show ?thesis
      by (intro exI [of _ n]) simp
  next
    case (Some x)
    with assms n(2) have "store_calls (snd (uploadData db s)) = take n ?plan"
        and "SetUploadStatus Success \<notin> set (snd (uploadData db s))"
      by (cases ?run; auto simp: uploadData_def Let_def store_calls_append store_calls_map)+
    with n(1) show ?thesis
      by (intro exI [of _ n]) simp
  qed
qed

lemma upload_calls_prefix:
  "\<exists>n\<le>length (planned_calls (extract_regions (parseRows s)) (extract_provinces (parseRows s))
                  (extract_lgus (parseRows s)) (extract_barangays (parseRows s))).
     store_calls (snd (uploadData db s)) =
       take n (planned_calls (extract_regions (parseRows s)) (extract_provinces (parseRows s))
                  (extract_lgus (parseRows s)) (extract_barangays (parseRows s)))"
proof (cases "valid (validation s) \<and> parseRows s \<noteq> []")
  case True
  with upload_accepted [of s db] show ?thesis
    by blast
next
  case False
  then have "\<not> valid (validation s) \<or> parseRows s = []"
    by blast
  from upload_rejected_calls [OF this, of db] show ?thesis
    by (intro exI [of _ 0]) simp
qed

lemma block_calls:
  "\<exists>n\<le>length (planned_calls rs ps ls bs).
     store_calls (snd (replace_data db rs ps ls bs [])) = take n (planned_calls rs ps ls bs)"
proof -
  from issues_replace_data [of db rs ps ls bs]
  obtain n where "n \<le> length (planned_calls rs ps ls bs)"
      "snd (replace_data db rs ps ls bs []) =
         [] @ map StoreCall (take n (planned_calls rs ps ls bs))"
    unfolding issues_def by blast
  then show ?thesis
    by (intro exI [of _ n]) (simp add: store_calls_map)
qed

subsection \<open>The planned batches\<close>

lemma length_planned_batches:
  "length (planned_batches bs) = (length bs + BATCH_SIZE - 1) div BATCH_SIZE"
  by (simp add: planned_batches_def)

lemma nth_planned_batches:
  "j < length (planned_batches bs) \<Longrightarrow>
     planned_batches bs ! j = slice bs (j * BATCH_SIZE) (j * BATCH_SIZE + BATCH_SIZE)"
  by (simp add: planned_batches_def)

lemma concat_slices:
  "concat (map (\<lambda>j. slice xs (j * b) (j * b + b)) [0..<n]) = take (n * b) xs"
proof (induction n)
  case 0
  then show ?case by simp
next
  case (Suc n)
  have "take (n * b) xs @ take b (drop (n * b) xs) = take (n * b + b) xs"
    by (simp add: take_add)
  with Suc show ?case
    by (simp add: slice_def add.commute)
qed

lemma concat_planned_batches: "concat (planned_batches bs) = bs"
proof -
  have "length bs \<le> (length bs + BATCH_SIZE - 1) div BATCH_SIZE * BATCH_SIZE"
    unfolding BATCH_SIZE_def by arith
  then show ?thesis
    by (simp add: planned_batches_def concat_slices)
qed

lemma length_nth_planned_batches:
  assumes "j < length (planned_batches bs)"
  shows "length (planned_batches bs ! j) =
           (if Suc j < length (planned_batches bs) then BATCH_SIZE
            else length bs - j * BATCH_SIZE)"
    and "0 < length (planned_batches bs ! j)"
    and "length (planned_batches bs ! j) \<le> BATCH_SIZE"
proof -
  have len: "length (planned_batches bs ! j) = min BATCH_SIZE (length bs - j * BATCH_SIZE)"
    by (simp add: nth_planned_batches [OF assms] slice_def)
  from assms have lt: "j * BATCH_SIZE < length bs"
    by (simp add: length_planned_batches batch_bound)
  show "length (planned_batches bs ! j) =
           (if Suc j < length (planned_batches bs) then BATCH_SIZE
            else length bs - j * BATCH_SIZE)"
  proof (cases "Suc j < length (planned_batches bs)")
    case True
    then have "Suc j * BATCH_SIZE < length bs"
      by (metis length_planned_batches batch_bound)
    with True len show ?thesis by simp
  next
    case False
    then have "\<not> Suc j * BATCH_SIZE < length bs"
      by (metis length_planned_batches batch_bound)
    with False len show ?thesis by simp
  qed
  from lt len show "0 < length (planned_batches bs ! j)"
    by (simp add: BATCH_SIZE_def)
  from len show "length (planned_batches bs ! j) \<le> BATCH_SIZE"
    by simp
qed

lemma barangay_batches_append:
  "barangay_batches (xs @ ys) = barangay_batches xs @ barangay_batches ys"
  by (induction xs rule: barangay_batches.induct) auto

lemma barangay_batches_map: "barangay_batches (map InsertBarangays xs) = xs"
  by (induction xs) auto

lemma barangay_batches_planned:
  "barangay_batches (planned_calls rs ps ls bs) = planned_batches bs"
  by (simp add: planned_calls_def planned_deletes_def planned_inserts_def
      barangay_batches_append barangay_batches_map)

subsection \<open>A store that accepts every call lets the load succeed\<close>

lemma and_then_falls_through:
  assumes "\<And>evs. fst (f evs) = None" and "\<And>evs. fst (g evs) = None"
  shows "fst (and_then f g evs) = None"
  using assms(1) [of evs] assms(2) [of "snd (f evs)"]
  by (cases "f evs") (simp add: and_then_def)

lemma accepting_clear:
  "(\<And>h c. db h c = Resolved None) \<Longrightarrow> fst (clear_table db t evs) = None"
  by (simp add: clear_table_def await_def)

lemma accepting_insert:
  "(\<And>h c. db h c = Resolved None) \<Longrightarrow> fst (insert_records db c what evs) = None"
  by (simp add: insert_records_def await_def)

lemma accepting_batches:
  assumes "\<And>h c. db h c = Resolved None"
  shows "fst (insert_batches db bs i evs) = None"
  using assms
proof (induction db bs i evs rule: insert_batches.induct)
  case (1 db bs i evs)
  show ?case
  proof (cases "i < length bs")
    case True
    have "fst (insert_records db (InsertBarangays (slice bs i (i + BATCH_SIZE)))
        (''barangays batch '' @ string_of_nat (i div BATCH_SIZE + 1)) evs) = None"
      by (rule accepting_insert) (rule "1.prems")
    then obtain evs' where r: "insert_records db
        (InsertBarangays (slice bs i (i + BATCH_SIZE)))
        (''barangays batch '' @ string_of_nat (i div BATCH_SIZE + 1)) evs = (None, evs')"
      by (metis prod.collapse)
    from "1.IH" [OF True r [symmetric] refl "1.prems"] True r show ?thesis
      by (subst insert_batches.simps) simp
  next
    case False
    then show ?thesis
      by (subst insert_batches.simps) simp
  qed
qed

lemma accepting_replace_data: "fst (replace_data accepting_store rs ps ls bs evs) = None"
  unfolding replace_data_def clear_existing_def insert_new_def
  by (intro and_then_falls_through)
     (simp_all add: accepting_clear accepting_insert accepting_batches skip_def
        accepting_store_def)

lemma accepting_upload:
  assumes "valid (validation s)" and "parseRows s \<noteq> []"
  shows "SetUploadStatus Success \<in> set (snd (uploadData accepting_store s))"
proof -
  obtain evs where "replace_data accepting_store (extract_regions (parseRows s))
      (extract_provinces (parseRows s)) (extract_lgus (parseRows s))
      (extract_barangays (parseRows s))
      [SetUploadStatus Uploading, Toast ToastInfo ''Processing data, please wait...''] =
      (None, evs)"
    by (metis accepting_replace_data prod.collapse)
  with assms show ?thesis
    by (simp add: uploadData_def Let_def)
qed

lemma complete_rows:
  assumes "set requiredColumns \<subseteq> set (parsedColumns metaFields)"
  shows "parseRows (fst (parseCSV (Complete data perrors metaFields) s)) = data"
  using no_missing_columns [OF assms]
  by (simp add: parseCSV_def complete_def Let_def)

lemma big_state_valid:
  "valid (validation big_state)" "parseRows big_state = replicate 2500 sample_row"
proof -
  have h: "set requiredColumns \<subseteq> set (parsedColumns (Some requiredColumns))"
    by (simp add: parsedColumns_def)
  have "missing_fields sample_row = []"
    by (simp add: missing_fields_def sample_row_def)
  then have "validate_rows (replicate 2500 sample_row) = []"
    by (intro validate_rows_clean) simp
  then show "valid (validation big_state)"
    by (simp add: big_state_def complete_checked [OF h])
  show "parseRows big_state = replicate 2500 sample_row"
    by (simp add: big_state_def complete_rows [OF h])
qed

lemma accepted_sample_run:
  "uploadData accepting_store sample_state =
     (sample_state\<lparr>uploadStatus := Success\<rparr>,
      [SetUploadStatus Uploading,
       Toast ToastInfo ''Processing data, please wait...'',
       StoreCall (Delete ''barangays''), StoreCall (Delete ''lgus''),
       StoreCall (Delete ''provinces''), StoreCall (Delete ''regions''),
       StoreCall (InsertRegions [\<lparr>code = ''01'', name = ''R1''\<rparr>]),
       StoreCall (InsertProvinces
         [\<lparr>code = ''P1'', name = ''Prov1'', region_code = ''01''\<rparr>]),
       StoreCall (InsertLgus [\<lparr>code = ''L1'', name = ''Lgu1'', province_code = ''P1''\<rparr>]),
       StoreCall (InsertBarangays
         [\<lparr>code = ''B1'', name = ''Brgy1'', province_code = ''P1'', lgu_code = ''L1''\<rparr>]),
       SetUploadStatus Success,
       Toast ToastSuccess ''Address data updated successfully!''])"
  by (simp add: sample_state_eq uploadData_def replace_data_def clear_existing_def
      insert_new_def and_then_def clear_table_def insert_records_def await_def
      insert_batches.simps BATCH_SIZE_def slice_def accepting_store_def
      extract_regions_def extract_provinces_def extract_lgus_def extract_barangays_def
      new_Map_def region_entry_def province_entry_def lgu_entry_def barangay_record_def
      sample_row_def)

subsection \<open>Batches, order and guards\<close>

text \<open>
  Claim C7.  In a load that runs to success, with \<open>K\<close> the size of the Barangay
  collection (\<open>K > 0\<close>, one record per row) and the batch size 1000, the barangay insert
  calls are \<open>K\<close> divided by 1000, rounded up, in number; the call number \<open>j\<close> carries
  the records from position \<open>1000 j\<close> up to \<open>1000 j + 1000\<close>, so every batch but the
  last has 1000 records and the last has the rest (at least one); and the batches, put
  together in the order of their calls, are the collection in its original order.
\<close>

theorem batches_cover_barangays:
  fixes db :: store and s :: page_state
  defines "bs \<equiv> extract_barangays (parseRows s)"
    and "batches \<equiv> barangay_batches (store_calls (snd (uploadData db s)))"
  assumes "SetUploadStatus Success \<in> set (snd (uploadData db s))"
  shows "0 < length bs \<and> length bs = length (parseRows s) \<and> BATCH_SIZE = 1000
       \<and> length batches = (length bs + BATCH_SIZE - 1) div BATCH_SIZE
       \<and> concat batches = bs
       \<and> (\<forall>j<length batches.
            batches ! j = slice bs (j * BATCH_SIZE) (j * BATCH_SIZE + BATCH_SIZE)
          \<and> length (batches ! j) =
              (if Suc j < length batches then BATCH_SIZE else length bs - j * BATCH_SIZE)
          \<and> 0 < length (batches ! j) \<and> length (batches ! j) \<le> BATCH_SIZE)"
proof -
  have "valid (validation s) \<and> parseRows s \<noteq> []"
  proof (rule ccontr)
    assume "\<not> (valid (validation s) \<and> parseRows s \<noteq> [])"
    then have "\<not> valid (validation s) \<or> parseRows s = []"
      by blast
    from upload_rejected_calls [OF this, of db] assms(3) show False
      by simp
  qed
  then have ok: "valid (validation s)" "parseRows s \<noteq> []"
    by simp_all
  from upload_accepted [OF ok, of db] assms(3)
  have "store_calls (snd (uploadData db s)) =
      planned_calls (extract_regions (parseRows s)) (extract_provinces (parseRows s))
        (extract_lgus (parseRows s)) (extract_barangays (parseRows s))"
    by auto
  then have b: "batches = planned_batches bs"
    by (simp add: batches_def bs_def barangay_batches_planned)
  have size: "0 < length bs" "length bs = length (parseRows s)"
    using ok by (simp_all add: bs_def extract_barangays_def)
  have each: "\<forall>j<length (planned_batches bs).
      planned_batches bs ! j = slice bs (j * BATCH_SIZE) (j * BATCH_SIZE + BATCH_SIZE)
    \<and> length (planned_batches bs ! j) =
        (if Suc j < length (planned_batches bs) then BATCH_SIZE
         else length bs - j * BATCH_SIZE)
    \<and> 0 < length (planned_batches bs ! j) \<and> length (planned_batches bs ! j) \<le> BATCH_SIZE"
    by (intro allI impI conjI nth_planned_batches length_nth_planned_batches)
  show ?thesis
    unfolding b
    using size BATCH_SIZE_def length_planned_batches [of bs] concat_planned_batches [of bs] each
    by blast
qed

text \<open>Scenario D: 2500 rows give three calls of sizes 1000, 1000 and 500.\<close>

theorem batches_cover_barangays_witness:
  "SetUploadStatus Success \<in> set (snd (uploadData accepting_store big_state))
   \<and> map length (barangay_batches (store_calls (snd (uploadData accepting_store big_state)))) =
       [1000, 1000, 500]
   \<and> concat (barangay_batches (store_calls (snd (uploadData accepting_store big_state)))) =
       extract_barangays (replicate 2500 sample_row)"
proof -
  let ?batches = "barangay_batches (store_calls (snd (uploadData accepting_store big_state)))"
  have h: "SetUploadStatus Success \<in> set (snd (uploadData accepting_store big_state))"
    by (rule accepting_upload) (simp_all add: big_state_valid)
  have rows: "parseRows big_state = replicate 2500 sample_row"
    by (rule big_state_valid)
  have len: "length (extract_barangays (replicate 2500 sample_row)) = 2500"
    by (simp add: extract_barangays_def)
  note t = batches_cover_barangays [OF h, unfolded rows len]
  from t have n: "length ?batches = 3"
    by (simp add: BATCH_SIZE_def)
  from t have "\<forall>j<length ?batches. length (?batches ! j) =
      (if Suc j < length ?batches then BATCH_SIZE else 2500 - j * BATCH_SIZE)"
    by blast
  then have each: "\<And>j. j < 3 \<Longrightarrow> length (?batches ! j) =
      (if Suc j < 3 then 1000 else 2500 - j * 1000)"
    unfolding n BATCH_SIZE_def by blast
  have sizes: "length (?batches ! 0) = 1000" "length (?batches ! Suc 0) = 1000"
      "length (?batches ! Suc (Suc 0)) = 500"
    using each [of 0] each [of "Suc 0"] each [of "Suc (Suc 0)"] by simp_all
  from n have "?batches = [?batches ! 0, ?batches ! Suc 0, ?batches ! Suc (Suc 0)]"
    by (auto simp: list_eq_iff_nth_eq numeral_3_eq_3 less_Suc_eq)
  then have "map length ?batches =
      [length (?batches ! 0), length (?batches ! Suc 0), length (?batches ! Suc (Suc 0))]"
    by (metis list.simps(8) list.simps(9))
  then have "map length ?batches = [1000, 1000, 500]"
    by (simp only: sizes)
  moreover from t have "concat ?batches = extract_barangays (replicate 2500 sample_row)"
    by blast
  ultimately show ?thesis
    using h by simp
qed

lemma sorted_planned_calls: "sorted (map phase (planned_calls rs ps ls bs))"
  by (auto simp: planned_calls_def planned_deletes_def planned_inserts_def sorted_append
      comp_def sorted_map)

lemma take_deletes:
  assumes "c \<in> set (take n (planned_calls rs ps ls bs))" and "is_insert c"
  shows "take 4 (take n (planned_calls rs ps ls bs)) = planned_deletes"
proof (cases "4 < n")
  case True
  then show ?thesis
    by (simp add: planned_calls_def planned_deletes_def min_def)
next
  case False
  have "length planned_deletes = 4"
    by (simp add: planned_deletes_def)
  with False have "take n (planned_calls rs ps ls bs) = take n planned_deletes"
    by (simp add: planned_calls_def)
  with assms(1) have "c \<in> set planned_deletes"
    by (metis in_set_takeD)
  with assms(2) show ?thesis
    by (auto simp: planned_deletes_def)
qed

text \<open>
  Claim C8.  Each call is awaited before the next one is issued, so the order of the
  calls of an upload is the order in which they complete.  In every upload the calls
  are a prefix of the plan (deletions of barangays, LGUs, provinces, regions, then
  insertions of regions, provinces, LGUs, barangays): they are sorted by
  \<^term>\<open>phase\<close>, so no region insert comes after a province insert, and whenever an
  insert is among them the first four calls are the four deletions in that order.
\<close>

theorem deletes_then_inserts_in_order:
  fixes db :: store and s :: page_state
  defines "calls \<equiv> store_calls (snd (uploadData db s))"
  shows "sorted (map phase calls)
       \<and> (\<forall>c\<in>set calls. is_insert c \<longrightarrow>
            take 4 calls =
              [Delete ''barangays'', Delete ''lgus'', Delete ''provinces'', Delete ''regions''])
       \<and> (\<exists>n. calls =
            take n (planned_calls (extract_regions (parseRows s))
                      (extract_provinces (parseRows s)) (extract_lgus (parseRows s))
                      (extract_barangays (parseRows s))))"
proof -
  let ?plan = "planned_calls (extract_regions (parseRows s)) (extract_provinces (parseRows s))
                      (extract_lgus (parseRows s)) (extract_barangays (parseRows s))"
  from upload_calls_prefix [of s db] obtain n where n: "calls = take n ?plan"
    unfolding calls_def by blast
  have "sorted (take n (map phase ?plan))"
    using sorted_planned_calls by (rule sorted_wrt_take)
  then have "sorted (map phase calls)"
    by (simp add: n take_map)
  moreover have "\<forall>c\<in>set calls. is_insert c \<longrightarrow>
      take 4 calls =
        [Delete ''barangays'', Delete ''lgus'', Delete ''provinces'', Delete ''regions'']"
    unfolding n using take_deletes by (auto simp: planned_deletes_def)
  ultimately show ?thesis
    using n by blast
qed

theorem deletes_then_inserts_in_order_witness:
  "InsertRegions [\<lparr>code = ''01'', name = ''R1''\<rparr>]
       \<in> set (store_calls (snd (uploadData accepting_store sample_state)))
   \<and> is_insert (InsertRegions [\<lparr>code = ''01'', name = ''R1''\<rparr>])
   \<and> take 4 (store_calls (snd (uploadData accepting_store sample_state))) =
       [Delete ''barangays'', Delete ''lgus'', Delete ''provinces'', Delete ''regions'']
   \<and> map phase (store_calls (snd (uploadData accepting_store sample_state))) =
       [0, 0, 0, 0, 1, 2, 3, 4]"
proof -
  have issued: "InsertRegions [\<lparr>code = ''01'', name = ''R1''\<rparr>]
      \<in> set (store_calls (snd (uploadData accepting_store sample_state)))"
    by (simp add: accepted_sample_run)
  have ins: "is_insert (InsertRegions [\<lparr>code = ''01'', name = ''R1''\<rparr>])"
    by simp
  from deletes_then_inserts_in_order [of accepting_store sample_state] issued ins
  have "take 4 (store_calls (snd (uploadData accepting_store sample_state))) =
      [Delete ''barangays'', Delete ''lgus'', Delete ''provinces'', Delete ''regions'']"
    by blast
  moreover have "map phase (store_calls (snd (uploadData accepting_store sample_state))) =
      [0, 0, 0, 0, 1, 2, 3, 4]"
    by (simp add: accepted_sample_run)
  ultimately show ?thesis
    using issued ins by blast
qed

lemma planned_batch_nonempty:
  assumes "b \<in> set (planned_batches bs)"
  shows "b \<noteq> [] \<and> bs \<noteq> []"
proof -
  from assms obtain j where j: "j < length (planned_batches bs)" "planned_batches bs ! j = b"
    by (auto simp: in_set_conv_nth)
  from length_nth_planned_batches(2) [OF j(1)] j(2) have "b \<noteq> []"
    by auto
  moreover from assms have "bs \<noteq> []"
    by (auto simp: planned_batches_Nil)
  ultimately show ?thesis by simp
qed

lemma planned_insert_calls:
  "InsertRegions x \<in> set (planned_calls rs ps ls bs) \<Longrightarrow> x = rs \<and> rs \<noteq> []"
  "InsertProvinces y \<in> set (planned_calls rs ps ls bs) \<Longrightarrow> y = ps \<and> ps \<noteq> []"
  "InsertLgus z \<in> set (planned_calls rs ps ls bs) \<Longrightarrow> z = ls \<and> ls \<noteq> []"
  "InsertBarangays b \<in> set (planned_calls rs ps ls bs) \<Longrightarrow> b \<in> set (planned_batches bs)"
  by (auto simp: planned_calls_def planned_deletes_def planned_inserts_def split: if_splits)

text \<open>
  Claim C10, as the code has it.  Each insert is guarded by the size of its collection:
  in the two steps of the load, run on any four collections, an empty collection gets no
  insert call for its table.  In \<^verbatim>\<open>uploadData\<close> an insert call for a table carries a
  non-empty payload taken from that table's collection, so it occurs only when the
  collection is non-empty.  There a collection is empty only when there are no rows at
  all, and then the upload is rejected before the first call: no call is issued, the
  four deletes included.
\<close>

theorem inserts_only_for_nonempty_collections:
  fixes db :: store and s :: page_state
    and rs :: "Region list" and ps :: "Province list" and ls :: "Lgu list"
    and bs :: "Barangay list"
  defines "calls \<equiv> store_calls (snd (uploadData db s))"
    and "block \<equiv> store_calls (snd (replace_data db rs ps ls bs []))"
  shows "(rs = [] \<longrightarrow> (\<forall>x. InsertRegions x \<notin> set block))
       \<and> (ps = [] \<longrightarrow> (\<forall>x. InsertProvinces x \<notin> set block))
       \<and> (ls = [] \<longrightarrow> (\<forall>x. InsertLgus x \<notin> set block))
       \<and> (bs = [] \<longrightarrow> (\<forall>x. InsertBarangays x \<notin> set block))
       \<and> (\<forall>x. InsertRegions x \<in> set calls \<longrightarrow>
             x = extract_regions (parseRows s) \<and> x \<noteq> [])
       \<and> (\<forall>x. InsertProvinces x \<in> set calls \<longrightarrow>
             x = extract_provinces (parseRows s) \<and> x \<noteq> [])
       \<and> (\<forall>x. InsertLgus x \<in> set calls \<longrightarrow>
             x = extract_lgus (parseRows s) \<and> x \<noteq> [])
       \<and> (\<forall>x. InsertBarangays x \<in> set calls \<longrightarrow>
             x \<noteq> [] \<and> extract_barangays (parseRows s) \<noteq> [])
       \<and> (extract_regions (parseRows s) = [] \<or> extract_provinces (parseRows s) = []
            \<or> extract_lgus (parseRows s) = [] \<or> extract_barangays (parseRows s) = []
           \<longrightarrow> calls = [])"
proof -
  let ?plan = "planned_calls (extract_regions (parseRows s)) (extract_provinces (parseRows s))
                 (extract_lgus (parseRows s)) (extract_barangays (parseRows s))"
  from block_calls [of rs ps ls bs db]
  have block: "set block \<subseteq> set (planned_calls rs ps ls bs)"
    unfolding block_def by (auto dest: in_set_takeD)
  from upload_calls_prefix [of s db]
  have calls: "set calls \<subseteq> set ?plan"
    unfolding calls_def by (auto dest: in_set_takeD)
  have 1: "rs = [] \<longrightarrow> (\<forall>x. InsertRegions x \<notin> set block)"
    using block planned_insert_calls(1) by blast
  have 2: "ps = [] \<longrightarrow> (\<forall>x. InsertProvinces x \<notin> set block)"
    using block planned_insert_calls(2) by blast
  have 3: "ls = [] \<longrightarrow> (\<forall>x. InsertLgus x \<notin> set block)"
    using block planned_insert_calls(3) by blast
  have 4: "bs = [] \<longrightarrow> (\<forall>x. InsertBarangays x \<notin> set block)"
    using block planned_insert_calls(4) planned_batch_nonempty by blast
  have 5: "\<forall>x. InsertRegions x \<in> set calls \<longrightarrow>
      x = extract_regions (parseRows s) \<and> x \<noteq> []"
    by (metis calls planned_insert_calls(1) subsetD)
  have 6: "\<forall>x. InsertProvinces x \<in> set calls \<longrightarrow>
      x = extract_provinces (parseRows s) \<and> x \<noteq> []"
    by (metis calls planned_insert_calls(2) subsetD)
  have 7: "\<forall>x. InsertLgus x \<in> set calls \<longrightarrow> x = extract_lgus (parseRows s) \<and> x \<noteq> []"
    by (metis calls planned_insert_calls(3) subsetD)
  have 8: "\<forall>x. InsertBarangays x \<in> set calls \<longrightarrow>
      x \<noteq> [] \<and> extract_barangays (parseRows s) \<noteq> []"
    by (metis calls planned_insert_calls(4) planned_batch_nonempty subsetD)
  have 9: "extract_regions (parseRows s) = [] \<or> extract_provinces (parseRows s) = []
            \<or> extract_lgus (parseRows s) = [] \<or> extract_barangays (parseRows s) = []
           \<longrightarrow> calls = []"
    unfolding calls_def extract_Nil
    using upload_rejected_calls [of s db] by auto
  from 1 2 3 4 5 6 7 8 9 show ?thesis
    by blast
qed

theorem inserts_only_for_nonempty_collections_witness:
  "InsertRegions [\<lparr>code = ''01'', name = ''R1''\<rparr>]
       \<in> set (store_calls (snd (uploadData accepting_store sample_state)))
   \<and> extract_regions (parseRows sample_state) = [\<lparr>code = ''01'', name = ''R1''\<rparr>]
   \<and> extract_regions (parseRows initial_state) = []
   \<and> store_calls (snd (uploadData accepting_store initial_state)) = []
   \<and> (\<forall>x. InsertRegions x \<notin>
         set (store_calls (snd (replace_data accepting_store [] [] []
           (extract_barangays [sample_row]) []))))"
proof -
  note accepted = inserts_only_for_nonempty_collections
    [where db = accepting_store and s = sample_state and rs = "[]" and ps = "[]"
       and ls = "[]" and bs = "extract_barangays [sample_row]"]
  note rejected = inserts_only_for_nonempty_collections
    [where db = accepting_store and s = initial_state and rs = "[]" and ps = "[]"
       and ls = "[]" and bs = "extract_barangays [sample_row]"]
  have issued: "InsertRegions [\<lparr>code = ''01'', name = ''R1''\<rparr>]
      \<in> set (store_calls (snd (uploadData accepting_store sample_state)))"
    by (simp add: accepted_sample_run)
  with accepted
  have "[\<lparr>code = ''01'', name = ''R1''\<rparr>] = extract_regions (parseRows sample_state)"
    by blast
  moreover have "extract_regions (parseRows initial_state) = []"
    by (simp add: initial_state_def extract_regions_def new_Map_def)
  moreover from this rejected
  have "store_calls (snd (uploadData accepting_store initial_state)) = []"
    by blast
  moreover from accepted
  have "\<forall>x. InsertRegions x \<notin>
         set (store_calls (snd (replace_data accepting_store [] [] []
           (extract_barangays [sample_row]) [])))"
    by blast
  ultimately show ?thesis
    using issued by simp
qed

text \<open>
  The initial state has no rows: all four collections are empty, and the upload issues
  no call at all, so none of the four deletes.
\<close>

theorem empty_collection_counterexample:
  "extract_regions (parseRows initial_state) = []
   \<and> extract_provinces (parseRows initial_state) = []
   \<and> extract_lgus (parseRows initial_state) = []
   \<and> extract_barangays (parseRows initial_state) = []
   \<and> store_calls (snd (uploadData accepting_store initial_state)) = []
   \<and> Delete ''barangays'' \<notin> set (store_calls (snd (uploadData accepting_store initial_state)))"
  by (simp add: initial_state_def uploadData_def extract_regions_def extract_provinces_def
      extract_lgus_def extract_barangays_def new_Map_def)

end
